theory Spec2Isabelle
  imports Main "HOL-Library.Multiset"
begin

section \<open>Errors\<close>

text \<open>
  The exceptions the modelled code raises or lets through. \<open>ValueError\<close> and
  \<open>RuntimeError\<close> carry the message the source formats; \<open>ImportError\<close> and
  \<open>OtherError\<close> (an exception of any other class) are what the code of a plugin may
  raise while it is loaded.
\<close>

datatype error =
    ValueError string
  | RuntimeError string
  | ImportError string
  | OtherError string

section \<open>Python dictionaries\<close>


definition dict_keys :: "('k \<times> 'v) list \<Rightarrow> 'k list" where
  "dict_keys d = map fst d"

definition dict_values :: "('k \<times> 'v) list \<Rightarrow> 'v list" where
  "dict_values d = map snd d"

text \<open>\<open>sep.join(xs)\<close> on strings.\<close>

fun join :: "string \<Rightarrow> string list \<Rightarrow> string" where
  "join sep [] = []"
| "join sep [x] = x"
| "join sep (x # y # ys) = x @ sep @ join sep (y # ys)"

section \<open>The driver manager (datacube/drivers/manager.py)\<close>

text \<open>
  A \<open>PostgresDb\<close> object is known by its identity; \<open>!=\<close> on two of them compares
  identities.
\<close>

type_synonym conn = nat

text \<open>
  A driver instance, as far as the manager looks at it: \<open>driver.name\<close>,
  \<open>driver.uri_scheme\<close>, \<open>driver.index._db\<close> and the answer of
  \<open>driver.requirements_satisfied()\<close>.
\<close>

record driver =
  name :: string
  uri_scheme :: string
  index_db :: conn
  requirements_satisfied :: bool

text \<open>
  The manager's private state: the generic index (\<open>__index\<close>, by its \<open>_db\<close>), the
  registry \<open>__drivers\<close>, the current driver \<open>__driver\<close> (\<open>None\<close> until one is set), and
  the sequence of connections on which \<open>Index.close()\<close> has been called so far.
\<close>

record manager =
  m_index :: conn
  m_drivers :: "(string \<times> driver) list"
  m_driver :: "driver option"
  closed :: "conn list"

text \<open>\<open>'%s' % driver_name\<close>, where \<open>driver_name\<close> may be \<open>None\<close>.\<close>

definition str_of_name :: "string option \<Rightarrow> string" where
  "str_of_name n = (case n of None \<Rightarrow> ''None'' | Some s \<Rightarrow> s)"

text \<open>
  \<open>set_current_driver\<close>: the membership test comes first and raises; only then is
  \<open>__driver\<close> assigned. \<open>None\<close> is never a key of the registry.
\<close>

definition set_current_driver :: "string option \<Rightarrow> manager \<Rightarrow> manager \<times> error option" where
  "set_current_driver driver_name m =
     (case (case driver_name of None \<Rightarrow> None | Some n \<Rightarrow> map_of (m_drivers m) n) of
        None \<Rightarrow>
          (m, Some (ValueError (''Default driver \"'' @ str_of_name driver_name
                 @ ''\" is not available in '' @ join '', '' (dict_keys (m_drivers m)))))
      | Some d \<Rightarrow> (m\<lparr>m_driver := Some d\<rparr>, None))"


text \<open>
  The loop closing the drivers' indexes, shared by \<open>close\<close> and \<open>reload_drivers\<close>:
  \<open>driver.index.close()\<close> for every registered driver whose \<open>index._db\<close> is not the
  generic index's \<open>_db\<close>. \<open>Index.close()\<close> closes the index's connection.
\<close>

definition close_driver_indexes :: "manager \<Rightarrow> manager" where
  "close_driver_indexes m =
     (if m_drivers m \<noteq> [] then
        m\<lparr>closed := closed m
             @ map index_db (filter (\<lambda>d. index_db d \<noteq> m_index m) (dict_values (m_drivers m)))\<rparr>
      else m)"

text \<open>\<open>DriverManager.close\<close>.\<close>

definition close :: "manager \<Rightarrow> manager" where
  "close m = (let m1 = close_driver_indexes m in m1\<lparr>closed := closed m1 @ [m_index m1]\<rparr>)"







text \<open>\<open>s.split(sep, 1)\<close>: at most one split, at the first separator.\<close>

definition split1 :: "char \<Rightarrow> string \<Rightarrow> string list" where
  "split1 sep s =
     (if sep \<in> set s
      then [takeWhile (\<lambda>c. c \<noteq> sep) s, tl (dropWhile (\<lambda>c. c \<noteq> sep) s)]
      else [s])"

text \<open>The first part of \<open>get_driver_by_scheme\<close>: the scheme of the first uri.\<close>

definition scheme_of :: "string list \<Rightarrow> string" where
  "scheme_of uris =
     (case uris of
        [] \<Rightarrow> ''file''
      | u # _ \<Rightarrow>
          (let parts = split1 CHR '':'' u
           in if length parts = 2 then parts ! 0 else ''file''))"

definition get_driver_by_scheme :: "manager \<Rightarrow> string list \<Rightarrow> error + driver" where
  "get_driver_by_scheme m uris =
     (let scheme = scheme_of uris
      in case find (\<lambda>driver. scheme = uri_scheme driver) (dict_values (m_drivers m)) of
           Some driver \<Rightarrow> Inr driver
         | None \<Rightarrow> Inl (ValueError (''No driver found for scheme \"'' @ scheme @ ''\"'')))"

text \<open>
  The connections \<open>close\<close> closes, in order: what one call appends to the log.
\<close>

definition closes_of :: "manager \<Rightarrow> conn list" where
  "closes_of m = drop (length (closed m)) (closed (close m))"

section \<open>Dataset information for the command line (datacube/ui/common.py)\<close>

text \<open>
  A dataset object is known by its id. What \<open>build_dataset_info\<close> reads of a dataset:
  \<open>dataset.type.name\<close>, \<open>dataset.is_archived\<close>, \<open>dataset.indexed_time\<close> (which may be
  \<open>None\<close>), \<open>dataset.uris\<close> and \<open>dataset.metadata.search_fields\<close>.
\<close>

type_synonym dataset_id = nat

record dataset =
  type_name :: string
  is_archived :: bool
  indexed_time :: "nat option"
  uris :: "string list"
  search_fields :: "(string \<times> string) list"

text \<open>
  The lineage graph as the function walks it: the dataset behind an id, the items of
  \<open>dataset.sources\<close> and the answer of \<open>index.datasets.get_derived(dataset.id)\<close>. Nothing
  keeps the graph from being cyclic.
\<close>

record lineage =
  dataset_at :: "dataset_id \<Rightarrow> dataset"
  sources_of :: "dataset_id \<Rightarrow> (string \<times> dataset_id) list"
  get_derived :: "dataset_id \<Rightarrow> dataset_id list"

text \<open>
  The \<open>OrderedDict\<close> that is returned; the keys \<open>indexed\<close>, \<open>sources\<close> and \<open>derived\<close> are
  optional.
\<close>

datatype info = Info
  (info_id: dataset_id)
  (info_product: string)
  (info_status: string)
  (info_indexed: "nat option")
  (info_locations: "string list")
  (info_fields: "(string \<times> string) list")
  (info_sources: "(string \<times> info) list option")
  (info_derived: "info list option")

text \<open>
  \<open>build_dataset_info\<close>. \<open>depth\<close> and \<open>max_depth\<close> are Python integers. The recursion is
  not structural: it ends because \<open>max_depth - depth\<close> decreases.
\<close>

function build_dataset_info :: "lineage \<Rightarrow> dataset_id \<Rightarrow> bool \<Rightarrow> bool \<Rightarrow> int \<Rightarrow> int \<Rightarrow> info" where
  "build_dataset_info index dataset show_sources show_derived depth max_depth =
     Info dataset
       (type_name (dataset_at index dataset))
       (if is_archived (dataset_at index dataset) then ''archived'' else ''active'')
       (indexed_time (dataset_at index dataset))
       (uris (dataset_at index dataset))
       (search_fields (dataset_at index dataset))
       (if depth < max_depth \<and> show_sources
        then Some (map (\<lambda>(key, source).
                     (key, build_dataset_info index source True False (depth + 1) max_depth))
                   (sources_of index dataset))
        else None)
       (if depth < max_depth \<and> show_derived
        then Some (map (\<lambda>derived.
                     build_dataset_info index derived False True (depth + 1) max_depth)
                   (get_derived index dataset))
        else None)"
  by pat_completeness auto
termination
  by (relation "measure (\<lambda>(index, dataset, show_sources, show_derived, depth, max_depth).
        nat (max_depth - depth))") auto

text \<open>
  The recursive calls one invocation makes, as a relation on the argument tuples
  \<open>(dataset, show_sources, show_derived, depth, max_depth)\<close>.
\<close>

inductive recursive_call ::
  "lineage \<Rightarrow> dataset_id \<times> bool \<times> bool \<times> int \<times> int \<Rightarrow> dataset_id \<times> bool \<times> bool \<times> int \<times> int \<Rightarrow> bool"
  for index :: lineage where
  source_call:
    "depth < max_depth \<Longrightarrow> show_sources \<Longrightarrow> (key, source) \<in> set (sources_of index dataset) \<Longrightarrow>
     recursive_call index (dataset, show_sources, show_derived, depth, max_depth)
       (source, True, False, depth + 1, max_depth)"
| derived_call:
    "depth < max_depth \<Longrightarrow> show_derived \<Longrightarrow> derived \<in> set (get_derived index dataset) \<Longrightarrow>
     recursive_call index (dataset, show_sources, show_derived, depth, max_depth)
       (derived, False, True, depth + 1, max_depth)"

text \<open>The infos nested directly in an info: its sources, then its derived datasets.\<close>

fun children :: "info \<Rightarrow> info list" where
  "children (Info i p s ix l f srcs drv) =
     (case srcs of None \<Rightarrow> [] | Some kvs \<Rightarrow> map snd kvs)
     @ (case drv of None \<Rightarrow> [] | Some is \<Rightarrow> is)"

text \<open>How many levels of datasets an info holds: 1 for a dataset without nested ones.\<close>

fun levels :: "info \<Rightarrow> nat" where
  "levels (Info i p s ix l f srcs drv) =
     Suc (max (case srcs of None \<Rightarrow> 0
               | Some kvs \<Rightarrow> foldr max (map (\<lambda>kv. levels (snd kv)) kvs) 0)
              (case drv of None \<Rightarrow> 0
               | Some is \<Rightarrow> foldr max (map levels is) 0))"

section \<open>File locations from the command line (datacube/scripts/file\_cli.py)\<close>

text \<open>
  Modelled from the spec: the index calls the commands make
  (\<open>get_datasets_for_location\<close>, \<open>archive_location\<close>, \<open>restore_location\<close>) are not among
  the sources. A location belongs to one dataset, has a uri and is archived or active;
  archiving and restoring toggle the location of the given dataset and uri and return
  whether a change was made (false if it is already in that state or the uri is not
  present).
\<close>

record location =
  loc_dataset :: dataset_id
  loc_uri :: string
  loc_archived :: bool

definition get_datasets_for_location :: "string \<Rightarrow> location list \<Rightarrow> dataset_id list" where
  "get_datasets_for_location uri locs =
     remdups (map loc_dataset (filter (\<lambda>l. loc_uri l = uri) locs))"

definition set_archived :: "bool \<Rightarrow> dataset_id \<Rightarrow> string \<Rightarrow> location list \<Rightarrow> bool \<times> location list" where
  "set_archived flag ds uri locs =
     (list_ex (\<lambda>l. loc_dataset l = ds \<and> loc_uri l = uri \<and> loc_archived l \<noteq> flag) locs,
      map (\<lambda>l. if loc_dataset l = ds \<and> loc_uri l = uri then l\<lparr>loc_archived := flag\<rparr> else l) locs)"

definition archive_location :: "dataset_id \<Rightarrow> string \<Rightarrow> location list \<Rightarrow> bool \<times> location list" where
  "archive_location = set_archived True"

definition restore_location :: "dataset_id \<Rightarrow> string \<Rightarrow> location list \<Rightarrow> bool \<times> location list" where
  "restore_location = set_archived False"

text \<open>
  \<open>_full_uri\<close>, for an absolute path that \<open>Path.as_uri()\<close> leaves as it is (no
  character to percent-encode, no symbolic link to resolve); a relative path would be
  made absolute first.
\<close>

definition full_uri :: "string \<Rightarrow> string" where
  "full_uri file = ''file://'' @ file"

text \<open>
  \<open>archive_cmd\<close>: the inner loop over \<open>to_process\<close>, the outer loop over \<open>files\<close>, and the
  command, which hands \<open>not_found_count\<close> to \<open>sys.exit\<close>. After the inner loop the file
  counts as not found when \<open>archive_count\<close> is still 0.
\<close>

fun archive_datasets :: "bool \<Rightarrow> string \<Rightarrow> dataset_id list \<Rightarrow> location list \<Rightarrow> nat \<Rightarrow> nat \<times> location list" where
  "archive_datasets dry_run file_uri [] index archive_count = (archive_count, index)"
| "archive_datasets dry_run file_uri (d # ds) index archive_count =
     (if \<not> dry_run then
        (case archive_location d file_uri index of
           (was_archived, index') \<Rightarrow>
             archive_datasets dry_run file_uri ds index'
               (if was_archived then archive_count + 1 else archive_count))
      else archive_datasets dry_run file_uri ds index archive_count)"

fun archive_files :: "bool \<Rightarrow> string list \<Rightarrow> location list \<Rightarrow> nat \<Rightarrow> nat \<times> location list" where
  "archive_files dry_run [] index not_found_count = (not_found_count, index)"
| "archive_files dry_run (file # files) index not_found_count =
     (let file_uri = full_uri file;
          to_process = get_datasets_for_location file_uri index
      in case archive_datasets dry_run file_uri to_process index 0 of
           (archive_count, index') \<Rightarrow>
             archive_files dry_run files index'
               (if archive_count = 0 then not_found_count + 1 else not_found_count))"

definition archive_cmd :: "location list \<Rightarrow> bool \<Rightarrow> string list \<Rightarrow> nat \<times> location list" where
  "archive_cmd index dry_run files = archive_files dry_run files index 0"

text \<open>
  \<open>restore_cmd\<close>. Here the test \<open>restore_count == 0\<close> stands inside the loop over
  \<open>to_process\<close>, so it runs once per dataset and never for a file without datasets.
\<close>

fun restore_datasets :: "bool \<Rightarrow> string \<Rightarrow> dataset_id list \<Rightarrow> location list \<Rightarrow> nat \<Rightarrow> nat \<Rightarrow> nat \<times> nat \<times> location list" where
  "restore_datasets dry_run file_uri [] index restore_count not_found_count =
     (restore_count, not_found_count, index)"
| "restore_datasets dry_run file_uri (d # ds) index restore_count not_found_count =
     (case (if \<not> dry_run then
              (case restore_location d file_uri index of
                 (was_restored, index') \<Rightarrow>
                   (if was_restored then restore_count + 1 else restore_count, index'))
            else (restore_count, index)) of
        (restore_count', index') \<Rightarrow>
          restore_datasets dry_run file_uri ds index' restore_count'
            (if restore_count' = 0 then not_found_count + 1 else not_found_count))"

fun restore_files :: "bool \<Rightarrow> string list \<Rightarrow> location list \<Rightarrow> nat \<Rightarrow> nat \<times> location list" where
  "restore_files dry_run [] index not_found_count = (not_found_count, index)"
| "restore_files dry_run (file # files) index not_found_count =
     (let file_uri = full_uri file;
          to_process = get_datasets_for_location file_uri index
      in case restore_datasets dry_run file_uri to_process index 0 not_found_count of
           (restore_count, not_found_count', index') \<Rightarrow>
             restore_files dry_run files index' not_found_count')"

definition restore_cmd :: "location list \<Rightarrow> bool \<Rightarrow> string list \<Rightarrow> nat \<times> location list" where
  "restore_cmd index dry_run files = restore_files dry_run files index 0"

text \<open>How many locations are archived: archiving only ever raises it.\<close>

definition archived_count :: "location list \<Rightarrow> nat" where
  "archived_count index = length (filter loc_archived index)"

section \<open>The field compiler\<close>

text \<open>
  Modelled from the spec: the Field Compiler (\<open>datacube.index.postgres._fields\<close>) is not
  among the sources. A field definition has a type tag and json-path offsets; a string
  or numeric field resolves one offset to a scalar extraction (numeric values cast from
  text), a range field is compiled to \<open>range(least(\<dots>), greatest(\<dots>), '[]')\<close> over its
  offsets, datetime values going through the canonical timestamp first. The expressions
  asserted in \<open>test_field_expression_unchanged\<close> (integration\_tests/index/test\_config\_docs.py)
  fix the text of the output and show that \<open>least\<close> and \<open>greatest\<close> each range over a list
  of offsets of their own (\<open>min_offset\<close>, \<open>max_offset\<close>).
\<close>

datatype field_kind = StringField | IntegerField | DoubleRangeField | DatetimeRangeField

record field_def =
  kind :: field_kind
  offset :: "string list"
  min_offset :: "string list list"
  max_offset :: "string list list"

text \<open>The search expression, as a term, and its SQL text (\<open>PgField.sql_expression\<close>).\<close>

datatype sql_expr =
    Extract "string list"
  | CommonTimestamp sql_expr
  | Cast sql_expr string
  | Least "sql_expr list"
  | Greatest "sql_expr list"
  | RangeOf string sql_expr sql_expr

definition scalar_expr :: "field_kind \<Rightarrow> string list \<Rightarrow> sql_expr" where
  "scalar_expr k path =
     (case k of
        StringField \<Rightarrow> Extract path
      | IntegerField \<Rightarrow> Cast (Extract path) ''INTEGER''
      | DoubleRangeField \<Rightarrow> Cast (Extract path) ''DOUBLE PRECISION''
      | DatetimeRangeField \<Rightarrow> CommonTimestamp (Extract path))"

definition range_name :: "field_kind \<Rightarrow> string" where
  "range_name k = (if k = DatetimeRangeField then ''tstzrange'' else ''agdc.float8range'')"

definition is_range :: "field_kind \<Rightarrow> bool" where
  "is_range k \<longleftrightarrow> k = DoubleRangeField \<or> k = DatetimeRangeField"

definition compile :: "field_def \<Rightarrow> sql_expr" where
  "compile f =
     (if is_range (kind f)
      then RangeOf (range_name (kind f))
             (Least (map (scalar_expr (kind f)) (min_offset f)))
             (Greatest (map (scalar_expr (kind f)) (max_offset f)))
      else scalar_expr (kind f) (offset f))"

fun sql_expression :: "sql_expr \<Rightarrow> string" where
  "sql_expression (Extract path) = ''agdc.dataset.metadata #>> '{'' @ join '', '' path @ ''}'' @ [CHR 0x27]"
| "sql_expression (CommonTimestamp e) = ''agdc.common_timestamp('' @ sql_expression e @ '')''"
| "sql_expression (Cast e t) = ''CAST('' @ sql_expression e @ '' AS '' @ t @ '')''"
| "sql_expression (Least es) = ''least('' @ join '', '' (map sql_expression es) @ '')''"
| "sql_expression (Greatest es) = ''greatest('' @ join '', '' (map sql_expression es) @ '')''"
| "sql_expression (RangeOf r lo hi) =
     r @ ''('' @ sql_expression lo @ '', '' @ sql_expression hi @ '', '[]')''"

text \<open>
  The four expressions the test asserts, character by character, for the fields
  \<open>time\<close>, \<open>lat\<close>, \<open>platform\<close> and \<open>orbit\<close>.
\<close>

definition time_sql_expression :: string where
  "time_sql_expression =
     ''tstzrange('' @
     ''least('' @
     ''agdc.common_timestamp(agdc.dataset.metadata #>> '{extent, from_dt}'), '' @
     ''agdc.common_timestamp(agdc.dataset.metadata #>> '{extent, center_dt}')'' @
     ''), greatest('' @
     ''agdc.common_timestamp(agdc.dataset.metadata #>> '{extent, to_dt}'), '' @
     ''agdc.common_timestamp(agdc.dataset.metadata #>> '{extent, center_dt}')'' @
     ''), '[]')''"

definition lat_sql_expression :: string where
  "lat_sql_expression =
     ''agdc.float8range('' @
     ''least('' @
     ''CAST(agdc.dataset.metadata #>> '{extent, coord, ur, lat}' AS DOUBLE PRECISION), '' @
     ''CAST(agdc.dataset.metadata #>> '{extent, coord, lr, lat}' AS DOUBLE PRECISION), '' @
     ''CAST(agdc.dataset.metadata #>> '{extent, coord, ul, lat}' AS DOUBLE PRECISION), '' @
     ''CAST(agdc.dataset.metadata #>> '{extent, coord, ll, lat}' AS DOUBLE PRECISION)), '' @
     ''greatest('' @
     ''CAST(agdc.dataset.metadata #>> '{extent, coord, ur, lat}' AS DOUBLE PRECISION), '' @
     ''CAST(agdc.dataset.metadata #>> '{extent, coord, lr, lat}' AS DOUBLE PRECISION), '' @
     ''CAST(agdc.dataset.metadata #>> '{extent, coord, ul, lat}' AS DOUBLE PRECISION), '' @
     ''CAST(agdc.dataset.metadata #>> '{extent, coord, ll, lat}' AS DOUBLE PRECISION)'' @
     ''), '[]')''"

definition platform_sql_expression :: string where
  "platform_sql_expression = ''agdc.dataset.metadata #>> '{platform, code}'' @ [CHR 0x27]"

definition orbit_sql_expression :: string where
  "orbit_sql_expression = ''CAST(agdc.dataset.metadata #>> '{acquisition, platform_orbit}' AS INTEGER)''"

text \<open>
  What an expression computes on a dataset's metadata document. The document gives the
  value at each offset, in a linearly ordered type (timestamps, numbers); the cast and
  the canonical timestamp change the representation only, not the order. \<open>least\<close> and
  \<open>greatest\<close> need at least one argument, and a range needs its lower bound at or below
  its upper bound, as the database requires; \<open>None\<close> is the database's error.
\<close>

datatype 'v sql_value = ScalarVal 'v | RangeVal 'v 'v

definition least_of :: "('v::linorder) option list \<Rightarrow> 'v option" where
  "least_of vs = (case those vs of Some (x # xs) \<Rightarrow> Some (fold min xs x) | _ \<Rightarrow> None)"

definition greatest_of :: "('v::linorder) option list \<Rightarrow> 'v option" where
  "greatest_of vs = (case those vs of Some (x # xs) \<Rightarrow> Some (fold max xs x) | _ \<Rightarrow> None)"

fun eval_scalar :: "(string list \<Rightarrow> 'v::linorder) \<Rightarrow> sql_expr \<Rightarrow> 'v option" where
  "eval_scalar doc (Extract path) = Some (doc path)"
| "eval_scalar doc (CommonTimestamp e) = eval_scalar doc e"
| "eval_scalar doc (Cast e t) = eval_scalar doc e"
| "eval_scalar doc (Least es) = least_of (map (eval_scalar doc) es)"
| "eval_scalar doc (Greatest es) = greatest_of (map (eval_scalar doc) es)"
| "eval_scalar doc (RangeOf r lo hi) = None"

fun eval :: "(string list \<Rightarrow> 'v::linorder) \<Rightarrow> sql_expr \<Rightarrow> 'v sql_value option" where
  "eval doc (RangeOf r lo hi) =
     (case (eval_scalar doc lo, eval_scalar doc hi) of
        (Some l, Some h) \<Rightarrow> if l \<le> h then Some (RangeVal l h) else None
      | _ \<Rightarrow> None)"
| "eval doc e = map_option ScalarVal (eval_scalar doc e)"

section \<open>Metadata type and product registries\<close>

text \<open>
  Modelled from the spec: \<open>add_document\<close> and \<open>update_document\<close> of the product and
  metadata-type registries (\<open>index.products\<close>, \<open>index.metadata_types\<close>) are not among the
  sources; only their tests are. A definition has a unique name, a free-text
  description, match rules (the value required at each path of a dataset's metadata;
  none for a metadata type) and named field definitions. Every field of a stored
  definition is taken to have its index, since indexes are never dropped.
\<close>

datatype registry_error =
    ValidationError "string list"
  | NotFoundError string

record type_doc =
  doc_name :: string
  description :: string
  match_rules :: "(string list \<times> string) list"
  dataset_fields :: "(string \<times> field_def) list"

type_synonym registry = "string \<rightharpoonup> type_doc"

text \<open>
  Two definitions are equivalent after normalisation when they agree on name and
  description and, as mappings, on match rules and fields: the order of keys is
  ignored.
\<close>

definition dict_equal :: "('k \<times> 'v) list \<Rightarrow> ('k \<times> 'v) list \<Rightarrow> bool" where
  "dict_equal a b \<longleftrightarrow> list_all (\<lambda>k. map_of a k = map_of b k) (map fst a @ map fst b)"

definition equivalent :: "type_doc \<Rightarrow> type_doc \<Rightarrow> bool" where
  "equivalent a b \<longleftrightarrow>
     doc_name a = doc_name b \<and> description a = description b
     \<and> dict_equal (match_rules a) (match_rules b) \<and> dict_equal (dataset_fields a) (dataset_fields b)"

definition get_by_name :: "registry \<Rightarrow> string \<Rightarrow> type_doc option" where
  "get_by_name reg n = reg n"

text \<open>
  \<open>add\<close>: a new name is stored; an existing name with an equivalent definition succeeds
  silently; an existing name with a differing definition fails with a validation error
  and nothing is overwritten.
\<close>

definition add :: "type_doc \<Rightarrow> registry \<Rightarrow> registry \<times> registry_error option" where
  "add d reg =
     (case reg (doc_name d) of
        None \<Rightarrow> (reg(doc_name d \<mapsto> d), None)
      | Some existing \<Rightarrow>
          if equivalent existing d then (reg, None)
          else (reg, Some (ValidationError [doc_name d])))"

text \<open>
  The unsafe changes of an update, by the name of the offending field or match path:
  an existing field whose type or extraction offsets change, a match rule that is new
  or asks for another value (fewer datasets match), a field that is removed. Adding a
  field, removing a match rule and changing the description are safe.
\<close>

definition offsets_changed :: "field_def \<Rightarrow> field_def \<Rightarrow> bool" where
  "offsets_changed old new \<longleftrightarrow>
     kind new \<noteq> kind old \<or> offset new \<noteq> offset old
     \<or> min_offset new \<noteq> min_offset old \<or> max_offset new \<noteq> max_offset old"

definition changed_fields :: "type_doc \<Rightarrow> type_doc \<Rightarrow> string list" where
  "changed_fields old new =
     map fst (filter (\<lambda>(n, fd). case map_of (dataset_fields new) n of
                                 Some fd' \<Rightarrow> offsets_changed fd fd'
                               | None \<Rightarrow> False) (dataset_fields old))"

definition tightened_rules :: "type_doc \<Rightarrow> type_doc \<Rightarrow> string list" where
  "tightened_rules old new =
     map (\<lambda>(path, v). join ''.'' path)
       (filter (\<lambda>(path, v). map_of (match_rules old) path \<noteq> Some v) (match_rules new))"

definition removed_fields :: "type_doc \<Rightarrow> type_doc \<Rightarrow> string list" where
  "removed_fields old new =
     map fst (filter (\<lambda>(n, fd). map_of (dataset_fields new) n = None) (dataset_fields old))"

definition unsafe_changes :: "type_doc \<Rightarrow> type_doc \<Rightarrow> string list" where
  "unsafe_changes old new = changed_fields old new @ tightened_rules old new @ removed_fields old new"

text \<open>
  \<open>update\<close>: with an unsafe change and without \<open>allow_unsafe\<close> the call fails with a
  validation error naming the offending fields and the stored definition stays;
  otherwise the new definition replaces the stored one.
\<close>

definition update :: "type_doc \<Rightarrow> bool \<Rightarrow> registry \<Rightarrow> registry \<times> registry_error option" where
  "update d allow_unsafe reg =
     (case reg (doc_name d) of
        None \<Rightarrow> (reg, Some (NotFoundError (doc_name d)))
      | Some existing \<Rightarrow>
          if unsafe_changes existing d \<noteq> [] \<and> \<not> allow_unsafe
          then (reg, Some (ValidationError (unsafe_changes existing d)))
          else (reg(doc_name d \<mapsto> d), None))"

section \<open>Searching with chosen fields\<close>

text \<open>
  Modelled from the spec: \<open>search_returning\<close> (\<open>index.datasets\<close>) is not among the
  sources; only its test is. The query is the predicate it compiles to, evaluated on
  each stored dataset. A row holds the requested fields in order; when \<open>uri\<close> is among
  them, one row is emitted per (matching dataset, location) pair, so a matching dataset
  without locations gives no row.
\<close>

datatype cell = IdCell dataset_id | UriCell string | FieldCell "string option"

definition result_row :: "string list \<Rightarrow> dataset_id \<Rightarrow> dataset \<Rightarrow> string \<Rightarrow> cell list" where
  "result_row field_names i d u =
     map (\<lambda>f. if f = ''id'' then IdCell i
              else if f = ''uri'' then UriCell u
              else FieldCell (map_of (search_fields d) f)) field_names"

definition search_returning ::
  "string list \<Rightarrow> (dataset \<Rightarrow> bool) \<Rightarrow> (dataset_id \<times> dataset) list \<Rightarrow> cell list list" where
  "search_returning field_names query datasets =
     concat (map (\<lambda>(i, d).
                if ''uri'' \<in> set field_names
                then map (result_row field_names i d) (uris d)
                else [result_row field_names i d []])
             (filter (\<lambda>(i, d). query d) datasets))"

section \<open>Example states\<close>

text \<open>Concrete drivers, plugins and managers on which the theorems below are instantiated.\<close>

definition netcdf_driver :: driver where
  "netcdf_driver = \<lparr>name = ''NetCDF CF'', uri_scheme = ''file'', index_db = 0, requirements_satisfied = True\<rparr>"

definition s3_driver :: driver where
  "s3_driver = \<lparr>name = ''s3'', uri_scheme = ''s3'', index_db = 1, requirements_satisfied = True\<rparr>"

definition s3_test_driver :: driver where
  "s3_test_driver = \<lparr>name = ''s3-test'', uri_scheme = ''s3'', index_db = 1, requirements_satisfied = True\<rparr>"

definition example_manager :: manager where
  "example_manager = \<lparr>m_index = 0, m_drivers = [(''NetCDF CF'', netcdf_driver), (''s3'', s3_driver)],
      m_driver = Some netcdf_driver, closed = []\<rparr>"

definition shared_manager :: manager where
  "shared_manager = \<lparr>m_index = 0,
      m_drivers = [(''NetCDF CF'', netcdf_driver), (''s3'', s3_driver), (''s3-test'', s3_test_driver)],
      m_driver = Some netcdf_driver, closed = []\<rparr>"





definition cyclic :: lineage where
  "cyclic = \<lparr>dataset_at = (\<lambda>i. \<lparr>type_name = ''ls8_telemetry'', is_archived = False,
                 indexed_time = None, uris = [], search_fields = []\<rparr>),
     sources_of = (\<lambda>i. if i = 1 then [(''a'', 2)] else [(''b'', 1)]),
     get_derived = (\<lambda>i. [i])\<rparr>"

definition archived_scene :: "location list" where
  "archived_scene =
     [\<lparr>loc_dataset = 1, loc_uri = ''file:///g/scene.yaml'', loc_archived = False\<rparr>,
      \<lparr>loc_dataset = 2, loc_uri = ''file:///g/scene.yaml'', loc_archived = False\<rparr>,
      \<lparr>loc_dataset = 3, loc_uri = ''file:///g/scene.yaml'', loc_archived = True\<rparr>]"

definition time_field :: field_def where
  "time_field = \<lparr>kind = DatetimeRangeField, offset = [],
     min_offset = [[''extent'', ''from_dt''], [''extent'', ''center_dt'']],
     max_offset = [[''extent'', ''to_dt''], [''extent'', ''center_dt'']]\<rparr>"

definition lat_field :: field_def where
  "lat_field = \<lparr>kind = DoubleRangeField, offset = [],
     min_offset = [[''extent'', ''coord'', ''ur'', ''lat''], [''extent'', ''coord'', ''lr'', ''lat''],
                   [''extent'', ''coord'', ''ul'', ''lat''], [''extent'', ''coord'', ''ll'', ''lat'']],
     max_offset = [[''extent'', ''coord'', ''ur'', ''lat''], [''extent'', ''coord'', ''lr'', ''lat''],
                   [''extent'', ''coord'', ''ul'', ''lat''], [''extent'', ''coord'', ''ll'', ''lat'']]\<rparr>"

definition platform_field :: field_def where
  "platform_field = \<lparr>kind = StringField, offset = [''platform'', ''code''], min_offset = [], max_offset = []\<rparr>"

definition orbit_field :: field_def where
  "orbit_field = \<lparr>kind = IntegerField, offset = [''acquisition'', ''platform_orbit''], min_offset = [], max_offset = []\<rparr>"

definition reversed_extent :: "string list \<Rightarrow> int" where
  "reversed_extent path =
     (if path = [''extent'', ''from_dt''] then 5
      else if path = [''extent'', ''center_dt''] then 3
      else if path = [''extent'', ''to_dt''] then 1 else 0)"

definition scene_corners :: "string list \<Rightarrow> int" where
  "scene_corners path =
     (if path = [''extent'', ''coord'', ''ll'', ''lat''] then -3133
      else if path = [''extent'', ''coord'', ''lr'', ''lat''] then -3137
      else if path = [''extent'', ''coord'', ''ul'', ''lat''] then -2923
      else if path = [''extent'', ''coord'', ''ur'', ''lat''] then -2926 else 0)"

definition eo_type :: type_doc where
  "eo_type = \<lparr>doc_name = ''eo'', description = ''Earth observation datasets'', match_rules = [],
     dataset_fields = [(''time'', time_field), (''lat'', lat_field), (''platform'', platform_field)]\<rparr>"

definition eo_type_numeric_time :: type_doc where
  "eo_type_numeric_time = eo_type\<lparr>dataset_fields :=
     [(''time'', time_field\<lparr>kind := DoubleRangeField\<rparr>), (''lat'', lat_field), (''platform'', platform_field)]\<rparr>"

definition ls5_telem_doc :: type_doc where
  "ls5_telem_doc = \<lparr>doc_name = ''ls5_telem_test'', description = ''LS5 test'',
     match_rules = [([''product_type''], ''satellite_telemetry_data''), ([''platform'', ''code''], ''LANDSAT_5'')],
     dataset_fields = []\<rparr>"

definition different_telemetry_type :: type_doc where
  "different_telemetry_type = ls5_telem_doc\<lparr>match_rules :=
     match_rules ls5_telem_doc @ [([''ga_label''], ''something'')]\<rparr>"

definition example_registry :: registry where
  "example_registry = [''eo'' \<mapsto> eo_type, ''ls5_telem_test'' \<mapsto> ls5_telem_doc]"

definition on_landsat_8 :: "dataset \<Rightarrow> bool" where
  "on_landsat_8 d \<longleftrightarrow> map_of (search_fields d) ''platform'' = Some ''LANDSAT_8''"

definition telemetry_datasets :: "(dataset_id \<times> dataset) list" where
  "telemetry_datasets =
     [(1, \<lparr>type_name = ''ls8_telemetry'', is_archived = False, indexed_time = None,
           uris = [''file:///tmp/test2'', ''file:///tmp/test1''],
           search_fields = [(''platform'', ''LANDSAT_8'')]\<rparr>),
      (2, \<lparr>type_name = ''ls8_telemetry'', is_archived = False, indexed_time = None,
           uris = [], search_fields = [(''platform'', ''LANDSAT_8'')]\<rparr>),
      (3, \<lparr>type_name = ''ls5_telem_test'', is_archived = False, indexed_time = None,
           uris = [''mdss://c10/tmp/something''], search_fields = [(''platform'', ''LANDSAT_5'')]\<rparr>)]"

section \<open>Theorems\<close>

subsection \<open>Dictionaries and the registry loop\<close>














lemma m_drivers_close_driver_indexes: "m_drivers (close_driver_indexes m) = m_drivers m"
  by (simp add: close_driver_indexes_def)

lemma split1_length: "length (split1 sep s) = 2 \<longleftrightarrow> sep \<in> set s"
  by (simp add: split1_def)

lemma scheme_of_first: "scheme_of (u # us) = scheme_of [u]"
  by (simp add: scheme_of_def)

lemma find_driver_Some:
  "find P xs = Some d \<Longrightarrow> d \<in> set xs \<and> P d"
  by (induction xs) (auto split: if_splits)

lemma closes_of_eq:
  "closes_of m = filter (\<lambda>c. c \<noteq> m_index m) (map index_db (dict_values (m_drivers m))) @ [m_index m]"
  by (simp add: closes_of_def close_def close_driver_indexes_def Let_def filter_map comp_def dict_values_def)

lemma closed_close: "closed (close m) = closed m @ closes_of m"
  by (simp add: closes_of_def close_def close_driver_indexes_def Let_def)

lemma count_list_distinct: "distinct xs \<Longrightarrow> x \<in> set xs \<Longrightarrow> count_list xs x = 1"
  by (induction xs) (auto simp: count_list_0_iff)

lemma count_list_filter_neq: "count_list (filter (\<lambda>c. c \<noteq> g) xs) g = 0"
  by (simp add: count_list_0_iff)

subsection \<open>Routing by uri scheme\<close>

text \<open>
  C4. Driver routing looks at the first uri only. The scheme is \<open>file\<close> for an empty
  list and for a first uri without \<open>:\<close>; otherwise it is the text before the first
  \<open>:\<close> of the first uri. \<open>get_driver_by_scheme\<close> returns a registered driver whose
  \<open>uri_scheme\<close> is that scheme whenever one is registered, and raises a \<open>ValueError\<close>
  when no registered driver has it.
\<close>

theorem get_driver_by_scheme_first_uri:
  "scheme_of [] = ''file''
   \<and> (CHR '':'' \<notin> set u \<longrightarrow> scheme_of (u # us) = ''file'')
   \<and> (CHR '':'' \<in> set u \<longrightarrow>
        scheme_of (u # us) = takeWhile (\<lambda>c. c \<noteq> CHR '':'') u
        \<and> (\<exists>body. u = scheme_of (u # us) @ '':'' @ body)
        \<and> CHR '':'' \<notin> set (scheme_of (u # us)))
   \<and> get_driver_by_scheme m (u # us) = get_driver_by_scheme m [u]
   \<and> (\<forall>d. get_driver_by_scheme m uri_list = Inr d \<longrightarrow>
        d \<in> set (dict_values (m_drivers m)) \<and> uri_scheme d = scheme_of uri_list)
   \<and> ((\<exists>d\<in>set (dict_values (m_drivers m)). uri_scheme d = scheme_of uri_list) \<longrightarrow>
        (\<exists>d. get_driver_by_scheme m uri_list = Inr d))
   \<and> ((\<forall>d\<in>set (dict_values (m_drivers m)). uri_scheme d \<noteq> scheme_of uri_list) \<longrightarrow>
        (\<exists>msg. get_driver_by_scheme m uri_list = Inl (ValueError msg)))"
proof (intro conjI impI allI)
  show "scheme_of [] = ''file''" by (simp add: scheme_of_def)
next
  assume "CHR '':'' \<notin> set u"
  then show "scheme_of (u # us) = ''file''" by (simp add: scheme_of_def split1_def)
next
  assume c: "CHR '':'' \<in> set u"
  then show s: "scheme_of (u # us) = takeWhile (\<lambda>c. c \<noteq> CHR '':'') u"
    by (simp add: scheme_of_def split1_def)
  from c have "dropWhile (\<lambda>c. c \<noteq> CHR '':'') u \<noteq> []" by simp
  moreover from c have "hd (dropWhile (\<lambda>c. c \<noteq> CHR '':'') u) = CHR '':''"
    using hd_dropWhile[of "\<lambda>c. c \<noteq> CHR '':''" u] by auto
  ultimately have "dropWhile (\<lambda>c. c \<noteq> CHR '':'') u = CHR '':'' # tl (dropWhile (\<lambda>c. c \<noteq> CHR '':'') u)"
    by (cases "dropWhile (\<lambda>c. c \<noteq> CHR '':'') u") auto
  then have "u = takeWhile (\<lambda>c. c \<noteq> CHR '':'') u @ '':'' @ tl (dropWhile (\<lambda>c. c \<noteq> CHR '':'') u)"
    using takeWhile_dropWhile_id[of "\<lambda>c. c \<noteq> CHR '':''" u] by simp
  with s show "\<exists>body. u = scheme_of (u # us) @ '':'' @ body" by metis
  show "CHR '':'' \<notin> set (scheme_of (u # us))"
    unfolding s using set_takeWhileD by fastforce
next
  show "get_driver_by_scheme m (u # us) = get_driver_by_scheme m [u]"
    by (simp add: get_driver_by_scheme_def scheme_of_def)
next
  fix d assume "get_driver_by_scheme m uri_list = Inr d"
  then have "find (\<lambda>driver. scheme_of uri_list = uri_scheme driver) (dict_values (m_drivers m)) = Some d"
    by (simp add: get_driver_by_scheme_def Let_def split: option.splits)
  from find_driver_Some[OF this]
  show "d \<in> set (dict_values (m_drivers m))" and "uri_scheme d = scheme_of uri_list" by simp_all
next
  assume "\<exists>d\<in>set (dict_values (m_drivers m)). uri_scheme d = scheme_of uri_list"
  then have "find (\<lambda>driver. scheme_of uri_list = uri_scheme driver) (dict_values (m_drivers m)) \<noteq> None"
    by (auto simp: find_None_iff)
  then show "\<exists>d. get_driver_by_scheme m uri_list = Inr d"
    by (auto simp: get_driver_by_scheme_def Let_def)
next
  assume "\<forall>d\<in>set (dict_values (m_drivers m)). uri_scheme d \<noteq> scheme_of uri_list"
  then have "find (\<lambda>driver. scheme_of uri_list = uri_scheme driver) (dict_values (m_drivers m)) = None"
    by (auto simp: find_None_iff)
  then show "\<exists>msg. get_driver_by_scheme m uri_list = Inl (ValueError msg)"
    by (simp add: get_driver_by_scheme_def Let_def)
qed

theorem get_driver_by_scheme_first_uri_witness:
  "CHR '':'' \<in> set ''s3://bucket/a.nc''
   \<and> scheme_of [''s3://bucket/a.nc'', ''file:///tmp/a.nc''] = ''s3''
   \<and> CHR '':'' \<notin> set ''/tmp/a.nc''
   \<and> scheme_of [''/tmp/a.nc''] = ''file''
   \<and> get_driver_by_scheme example_manager [''s3://bucket/a.nc'', ''file:///tmp/a.nc''] = Inr s3_driver
   \<and> scheme_of [''http://host/a.nc''] \<notin> set (map uri_scheme (dict_values (m_drivers example_manager)))
   \<and> (\<exists>msg. get_driver_by_scheme example_manager [''http://host/a.nc''] = Inl (ValueError msg))"
proof -
  have a: "CHR '':'' \<in> set ''s3://bucket/a.nc''" "CHR '':'' \<notin> set ''/tmp/a.nc''" by simp_all
  have s: "scheme_of [''s3://bucket/a.nc'', ''file:///tmp/a.nc''] = ''s3''" "scheme_of [''/tmp/a.nc''] = ''file''"
    "scheme_of [''http://host/a.nc''] = ''http''"
    by (simp_all add: scheme_of_def split1_def)
  have g: "get_driver_by_scheme example_manager [''s3://bucket/a.nc'', ''file:///tmp/a.nc''] = Inr s3_driver"
    by (simp add: get_driver_by_scheme_def Let_def s example_manager_def dict_values_def netcdf_driver_def s3_driver_def)
  have n: "\<forall>d\<in>set (dict_values (m_drivers example_manager)). uri_scheme d \<noteq> scheme_of [''http://host/a.nc'']"
    by (simp add: s example_manager_def dict_values_def netcdf_driver_def s3_driver_def)
  have n': "scheme_of [''http://host/a.nc''] \<notin> set (map uri_scheme (dict_values (m_drivers example_manager)))"
    by (simp add: s example_manager_def dict_values_def netcdf_driver_def s3_driver_def)
  from a s g n n' show ?thesis
    using get_driver_by_scheme_first_uri [of "''s3://bucket/a.nc''" "[''file:///tmp/a.nc'']" example_manager "[''http://host/a.nc'']"]
    by simp
qed

subsection \<open>Driver discovery\<close>




subsection \<open>Closing the manager\<close>

text \<open>
  C6, as the claim states it: when several drivers share one connection, \<open>close\<close>
  closes every distinct connection exactly once. Two drivers sharing a connection that
  is not the generic index's have it closed once per driver.
\<close>

theorem close_shared_connection_counterexample:
  "index_db s3_driver = index_db s3_test_driver
   \<and> closes_of shared_manager = [1, 1, 0]
   \<and> count_list (closes_of shared_manager) (index_db s3_driver) = 2"
  by (simp add: shared_manager_def netcdf_driver_def s3_driver_def s3_test_driver_def dict_values_def
      closes_of_def close_def close_driver_indexes_def)

text \<open>
  C6, amended. \<open>close\<close> calls \<open>close()\<close> once on the index of every registered driver
  whose connection is not the generic index's, and then once on the generic index. So
  the generic index's connection is closed exactly once however many drivers share it,
  no connection is left unclosed, and every connection is closed exactly once provided
  no two drivers share a connection other than the generic index's.
\<close>

theorem close_closes_connections:
  "closed (close m) = closed m @ closes_of m
   \<and> count_list (closes_of m) (m_index m) = 1
   \<and> (\<forall>d\<in>set (dict_values (m_drivers m)). index_db d \<in> set (closes_of m))
   \<and> (distinct (filter (\<lambda>c. c \<noteq> m_index m) (map index_db (dict_values (m_drivers m))))
        \<longrightarrow> (\<forall>c\<in>set (closes_of m). count_list (closes_of m) c = 1))
   \<and> closes_of m
       = filter (\<lambda>c. c \<noteq> m_index m) (map index_db (dict_values (m_drivers m))) @ [m_index m]"
proof (intro conjI impI ballI)
  show "closed (close m) = closed m @ closes_of m" by (rule closed_close)
next
  show "closes_of m
       = filter (\<lambda>c. c \<noteq> m_index m) (map index_db (dict_values (m_drivers m))) @ [m_index m]"
    by (rule closes_of_eq)
next
  show "count_list (closes_of m) (m_index m) = 1"
    by (simp add: closes_of_eq count_list_filter_neq)
next
  fix d assume "d \<in> set (dict_values (m_drivers m))"
  then show "index_db d \<in> set (closes_of m)"
    by (cases "index_db d = m_index m") (auto simp: closes_of_eq)
next
  fix c
  let ?others = "filter (\<lambda>c. c \<noteq> m_index m) (map index_db (dict_values (m_drivers m)))"
  assume d: "distinct ?others" and c: "c \<in> set (closes_of m)"
  show "count_list (closes_of m) c = 1"
  proof (cases "c = m_index m")
    case True
    then show ?thesis by (simp add: closes_of_eq count_list_filter_neq)
  next
    case False
    with c have "c \<in> set ?others" by (simp add: closes_of_eq)
    with d have "count_list ?others c = 1" by (rule count_list_distinct)
    with False show ?thesis by (simp add: closes_of_eq)
  qed
qed

theorem close_closes_connections_witness:
  "distinct (filter (\<lambda>c. c \<noteq> m_index example_manager)
       (map index_db (dict_values (m_drivers example_manager))))
   \<and> closes_of example_manager = [1, 0]
   \<and> count_list (closes_of example_manager) 1 = 1
   \<and> count_list (closes_of example_manager) 0 = 1"
  using close_closes_connections [of example_manager]
  by (simp add: example_manager_def netcdf_driver_def s3_driver_def dict_values_def
      closes_of_def close_def close_driver_indexes_def)

subsection \<open>Setting the current driver\<close>

text \<open>
  C10. For every manager state and every driver name (\<open>None\<close> included),
  \<open>set_current_driver\<close> with a name that is not among the registered drivers raises a
  \<open>ValueError\<close> and leaves the whole manager, in particular the current driver,
  unchanged; with a registered name the call succeeds and the current driver is
  afterwards exactly the driver registered under that name.
\<close>

theorem set_current_driver_checked:
  "((driver_name = None \<or> (\<exists>n. driver_name = Some n \<and> n \<notin> set (dict_keys (m_drivers m))))
      \<longrightarrow> (\<exists>msg. set_current_driver driver_name m = (m, Some (ValueError msg))))
   \<and> (\<forall>n d. driver_name = Some n \<and> map_of (m_drivers m) n = Some d
      \<longrightarrow> set_current_driver driver_name m = (m\<lparr>m_driver := Some d\<rparr>, None)
          \<and> m_driver (fst (set_current_driver driver_name m)) = Some d)"
proof (intro conjI impI allI)
  assume "driver_name = None \<or> (\<exists>n. driver_name = Some n \<and> n \<notin> set (dict_keys (m_drivers m)))"
  then have "(case driver_name of None \<Rightarrow> None | Some n \<Rightarrow> map_of (m_drivers m) n) = None"
    by (auto simp: dict_keys_def map_of_eq_None_iff)
  then show "\<exists>msg. set_current_driver driver_name m = (m, Some (ValueError msg))"
    by (simp add: set_current_driver_def)
next
  fix n d
  assume "driver_name = Some n \<and> map_of (m_drivers m) n = Some d"
  then show "set_current_driver driver_name m = (m\<lparr>m_driver := Some d\<rparr>, None)"
    by (simp add: set_current_driver_def)
next
  fix n d
  assume "driver_name = Some n \<and> map_of (m_drivers m) n = Some d"
  then show "m_driver (fst (set_current_driver driver_name m)) = Some d"
    by (simp add: set_current_driver_def)
qed

theorem set_current_driver_checked_witness:
  "''tiff'' \<notin> set (dict_keys (m_drivers example_manager))
   \<and> (\<exists>msg. set_current_driver (Some ''tiff'') example_manager = (example_manager, Some (ValueError msg)))
   \<and> (\<exists>msg. set_current_driver None example_manager = (example_manager, Some (ValueError msg)))
   \<and> map_of (m_drivers example_manager) ''s3'' = Some s3_driver
   \<and> m_driver (fst (set_current_driver (Some ''s3'') example_manager)) = Some s3_driver"
proof -
  have k: "''tiff'' \<notin> set (dict_keys (m_drivers example_manager))"
    by (simp add: example_manager_def dict_keys_def)
  have r: "map_of (m_drivers example_manager) ''s3'' = Some s3_driver"
    by (simp add: example_manager_def)
  from k r show ?thesis
    using set_current_driver_checked [of "Some ''tiff''" example_manager]
      set_current_driver_checked [of None example_manager]
      set_current_driver_checked [of "Some ''s3''" example_manager]
    by simp
qed

subsection \<open>Depth guard of the lineage traversal\<close>

lemma foldr_max_le:
  "(\<And>x. x \<in> set xs \<Longrightarrow> f x \<le> (n::nat)) \<Longrightarrow> foldr max (map f xs) 0 \<le> n"
  by (induction xs) auto

lemma levels_build_dataset_info:
  "levels (build_dataset_info index dataset show_sources show_derived depth max_depth)
     \<le> Suc (nat (max_depth - depth))"
proof (induction index dataset show_sources show_derived depth max_depth
    rule: build_dataset_info.induct)
  case (1 index dataset show_sources show_derived depth max_depth)
  let ?n = "nat (max_depth - depth)"
  have src: "foldr max (map (\<lambda>kv. levels (snd kv))
        (map (\<lambda>(key, source). (key, build_dataset_info index source True False (depth + 1) max_depth))
             (sources_of index dataset))) 0 \<le> ?n"
    if "depth < max_depth" "show_sources"
  proof (rule foldr_max_le)
    fix kv
    assume "kv \<in> set (map (\<lambda>(key, source). (key, build_dataset_info index source True False (depth + 1) max_depth))
             (sources_of index dataset))"
    then obtain key source where ks: "(key, source) \<in> set (sources_of index dataset)"
      and kv: "kv = (key, build_dataset_info index source True False (depth + 1) max_depth)"
      by auto
    from "1.IH"(1)[OF _ ks] that
    have "levels (build_dataset_info index source True False (depth + 1) max_depth)
            \<le> Suc (nat (max_depth - (depth + 1)))" by simp
    with that show "levels (snd kv) \<le> ?n" by (simp add: kv)
  qed
  have drv: "foldr max (map levels
        (map (\<lambda>derived. build_dataset_info index derived False True (depth + 1) max_depth)
             (get_derived index dataset))) 0 \<le> ?n"
    if "depth < max_depth" "show_derived"
  proof (rule foldr_max_le)
    fix i
    assume "i \<in> set (map (\<lambda>derived. build_dataset_info index derived False True (depth + 1) max_depth)
             (get_derived index dataset))"
    then obtain derived where d: "derived \<in> set (get_derived index dataset)"
      and i: "i = build_dataset_info index derived False True (depth + 1) max_depth"
      by auto
    from "1.IH"(2)[OF _ d] that
    have "levels (build_dataset_info index derived False True (depth + 1) max_depth)
            \<le> Suc (nat (max_depth - (depth + 1)))" by simp
    with that show "levels i \<le> ?n" by (simp add: i)
  qed
  show ?case
    using src drv by (subst build_dataset_info.simps) (simp del: build_dataset_info.simps)
qed

lemma recursive_call_measure:
  "recursive_call index c c' \<Longrightarrow>
     (c', c) \<in> measure (\<lambda>(dataset, show_sources, show_derived, depth, max_depth). nat (max_depth - depth))"
  by (induction rule: recursive_call.induct) auto

lemma wf_recursive_call: "wf {(c', c). recursive_call index c c'}"
  by (rule wf_subset [OF wf_measure]) (auto dest: recursive_call_measure)

lemma children_build_dataset_info:
  "set (children (build_dataset_info index dataset show_sources show_derived depth max_depth))
     = {build_dataset_info index ds' ss' sd' depth' md' | ds' ss' sd' depth' md'.
          recursive_call index (dataset, show_sources, show_derived, depth, max_depth)
            (ds', ss', sd', depth', md')}"
  (is "?L = ?R")
proof
  show "?L \<subseteq> ?R"
  proof
    fix i assume "i \<in> ?L"
    then consider
      (src) key source where "depth < max_depth" "show_sources"
        "(key, source) \<in> set (sources_of index dataset)"
        "i = build_dataset_info index source True False (depth + 1) max_depth"
    | (drv) derived where "depth < max_depth" "show_derived"
        "derived \<in> set (get_derived index dataset)"
        "i = build_dataset_info index derived False True (depth + 1) max_depth"
      by (subst (asm) build_dataset_info.simps)
         (auto simp del: build_dataset_info.simps split: if_splits)
    then show "i \<in> ?R"
    proof cases
      case src
      from source_call [OF src(1,2,3), of show_derived] src(4) show ?thesis by blast
    next
      case drv
      from derived_call [OF drv(1,2,3), of show_sources] drv(4) show ?thesis by blast
    qed
  qed
  show "?R \<subseteq> ?L"
  proof
    fix i assume "i \<in> ?R"
    then obtain ds' ss' sd' depth' md' where
      r: "recursive_call index (dataset, show_sources, show_derived, depth, max_depth)
            (ds', ss', sd', depth', md')"
      and i: "i = build_dataset_info index ds' ss' sd' depth' md'" by blast
    from r show "i \<in> ?L"
    proof (cases rule: recursive_call.cases)
      case (source_call key)
      then show ?thesis
        by (subst build_dataset_info.simps)
           (force simp del: build_dataset_info.simps simp: i)
    next
      case derived_call
      then show ?thesis
        by (subst build_dataset_info.simps)
           (force simp del: build_dataset_info.simps simp: i)
    qed
  qed
qed

lemma recursive_call_depth:
  "recursive_call index c c' \<Longrightarrow>
     fst (snd (snd (snd c))) < snd (snd (snd (snd c)))
     \<and> fst (snd (snd (snd c'))) = fst (snd (snd (snd c))) + 1
     \<and> snd (snd (snd (snd c'))) = snd (snd (snd (snd c)))"
  by (induction rule: recursive_call.induct) auto

text \<open>
  C8. For every dataset, every lineage graph (cyclic ones included) and every
  \<open>max_depth\<close>, \<open>build_dataset_info\<close> terminates: the relation of its recursive calls is
  well-founded. A call recurses only while \<open>depth < max_depth\<close>, each recursive call has
  \<open>depth + 1\<close> and the same \<open>max_depth\<close>, at \<open>depth \<ge> max_depth\<close> neither sources nor
  derived datasets are resolved, and the result started at depth 1 with a positive
  \<open>max_depth\<close> never nests more than \<open>max_depth\<close> levels of datasets. The infos nested
  directly in a result are exactly the results of these recursive calls.
\<close>

theorem build_dataset_info_depth_guard:
  "wf {(c', c). recursive_call index c c'}
   \<and> (\<forall>ds ss sd depth md c'. recursive_call index (ds, ss, sd, depth, md) c' \<longrightarrow>
         depth < md \<and> (\<exists>ds' ss' sd'. c' = (ds', ss', sd', depth + 1, md)))
   \<and> (max_depth \<le> depth \<longrightarrow>
         info_sources (build_dataset_info index dataset show_sources show_derived depth max_depth) = None
         \<and> info_derived (build_dataset_info index dataset show_sources show_derived depth max_depth) = None)
   \<and> levels (build_dataset_info index dataset show_sources show_derived depth max_depth)
         \<le> Suc (nat (max_depth - depth))
   \<and> (0 < max_depth \<longrightarrow>
         levels (build_dataset_info index dataset show_sources show_derived 1 max_depth) \<le> nat max_depth)
   \<and> set (children (build_dataset_info index dataset show_sources show_derived depth max_depth))
       = {build_dataset_info index ds' ss' sd' depth' md' | ds' ss' sd' depth' md'.
            recursive_call index (dataset, show_sources, show_derived, depth, max_depth)
              (ds', ss', sd', depth', md')}"
proof (intro conjI allI impI)
  show "wf {(c', c). recursive_call index c c'}" by (rule wf_recursive_call)
next
  show "set (children (build_dataset_info index dataset show_sources show_derived depth max_depth))
       = {build_dataset_info index ds' ss' sd' depth' md' | ds' ss' sd' depth' md'.
            recursive_call index (dataset, show_sources, show_derived, depth, max_depth)
              (ds', ss', sd', depth', md')}"
    by (rule children_build_dataset_info)
next
  fix ds ss sd depth md c'
  assume r: "recursive_call index (ds, ss, sd, depth, md) c'"
  from recursive_call_depth [OF r] show "depth < md" by simp
  from recursive_call_depth [OF r] show "\<exists>ds' ss' sd'. c' = (ds', ss', sd', depth + 1, md)"
    by (cases c') auto
next
  assume "max_depth \<le> depth"
  then show "info_sources (build_dataset_info index dataset show_sources show_derived depth max_depth) = None"
    and "info_derived (build_dataset_info index dataset show_sources show_derived depth max_depth) = None"
    by simp_all
next
  show "levels (build_dataset_info index dataset show_sources show_derived depth max_depth)
         \<le> Suc (nat (max_depth - depth))"
    by (rule levels_build_dataset_info)
next
  assume pos: "0 < max_depth"
  have "levels (build_dataset_info index dataset show_sources show_derived 1 max_depth)
          \<le> Suc (nat (max_depth - 1))"
    by (rule levels_build_dataset_info)
  also from pos have "Suc (nat (max_depth - 1)) = nat max_depth" by simp
  finally show "levels (build_dataset_info index dataset show_sources show_derived 1 max_depth) \<le> nat max_depth" .
qed

theorem build_dataset_info_depth_guard_witness:
  "(0::int) < 3
   \<and> recursive_call cyclic (1, True, True, 1, 3) (2, True, False, 2, 3)
   \<and> recursive_call cyclic (2, True, False, 2, 3) (1, True, False, 3, 3)
   \<and> levels (build_dataset_info cyclic 1 True True 1 3) = 3
   \<and> levels (build_dataset_info cyclic 1 True True 1 3) \<le> nat 3
   \<and> info_sources (build_dataset_info cyclic 1 True True 3 3) = None
   \<and> wf {(c', c). recursive_call cyclic c c'}"
proof -
  have a: "recursive_call cyclic (1, True, True, 1, 3) (2, True, False, 1 + 1, 3)"
    by (rule source_call [where key = "''a''"]) (simp_all add: cyclic_def)
  have b: "recursive_call cyclic (2, True, False, 2, 3) (1, True, False, 2 + 1, 3)"
    by (rule source_call [where key = "''b''"]) (simp_all add: cyclic_def)
  have l: "levels (build_dataset_info cyclic 1 True True 1 3) = 3"
    by (simp add: cyclic_def)
  from a b l show ?thesis
    using build_dataset_info_depth_guard [of cyclic 3 3 1 True True]
    by simp
qed

subsection \<open>Exit codes of the file commands\<close>

text \<open>
  \<open>archive_cmd\<close> counts a file exactly when handling it leaves every location as it was:
  \<open>archive_count\<close> stays 0 if and only if no \<open>archive_location\<close> call changed the index.
\<close>

lemma archive_location_unchanged:
  "\<not> fst (archive_location d uri index) \<Longrightarrow> snd (archive_location d uri index) = index"
  by (auto simp: archive_location_def set_archived_def list_ex_iff map_idI)

lemma archive_location_mono:
  "archived_count index \<le> archived_count (snd (archive_location d uri index))"
  unfolding archive_location_def set_archived_def archived_count_def
  by (induction index) auto

lemma archive_location_changed:
  "fst (archive_location d uri index) \<Longrightarrow>
   archived_count index < archived_count (snd (archive_location d uri index))"
  unfolding archive_location_def set_archived_def archived_count_def
proof (induction index)
  case Nil
  then show ?case by simp
next
  case (Cons l index)
  have m: "length (filter loc_archived index)
      \<le> length (filter loc_archived (map (\<lambda>l. if loc_dataset l = d \<and> loc_uri l = uri
                                              then l\<lparr>loc_archived := True\<rparr> else l) index))"
    using archive_location_mono [of index d uri]
    by (simp add: archive_location_def set_archived_def archived_count_def)
  show ?case
  proof (cases "loc_dataset l = d \<and> loc_uri l = uri \<and> \<not> loc_archived l")
    case True
    with m show ?thesis by auto
  next
    case False
    with Cons.prems have "list_ex (\<lambda>l. loc_dataset l = d \<and> loc_uri l = uri \<and> loc_archived l \<noteq> True) index"
      by auto
    with Cons.IH have "length (filter loc_archived index)
      < length (filter loc_archived (map (\<lambda>l. if loc_dataset l = d \<and> loc_uri l = uri
                                              then l\<lparr>loc_archived := True\<rparr> else l) index))"
      by simp
    then show ?thesis by auto
  qed
qed

lemma archive_datasets_count:
  "archive_count \<le> fst (archive_datasets dry_run uri ds index archive_count)
   \<and> archived_count index \<le> archived_count (snd (archive_datasets dry_run uri ds index archive_count))
   \<and> (fst (archive_datasets dry_run uri ds index archive_count) = archive_count
        \<longrightarrow> snd (archive_datasets dry_run uri ds index archive_count) = index)
   \<and> (archive_count < fst (archive_datasets dry_run uri ds index archive_count)
        \<longrightarrow> archived_count index < archived_count (snd (archive_datasets dry_run uri ds index archive_count)))"
proof (induction ds arbitrary: index archive_count)
  case Nil
  show ?case by simp
next
  case (Cons d ds)
  show ?case
  proof (cases dry_run)
    case True
    with Cons.IH [of archive_count index] show ?thesis by simp
  next
    case False
    obtain was index' where al: "archive_location d uri index = (was, index')"
      by (cases "archive_location d uri index")
    show ?thesis
    proof (cases was)
      case True
      from archive_location_changed [of d uri index] al True
      have lt: "archived_count index < archived_count index'" by simp
      from Cons.IH [of "archive_count + 1" index'] lt False al True
      show ?thesis by auto
    next
      case f: False
      from archive_location_unchanged [of d uri index] al f have "index' = index" by simp
      with Cons.IH [of archive_count index] False al f show ?thesis by simp
    qed
  qed
qed

lemma archive_files_step:
  "archive_files dry_run (file # files) index not_found_count =
     (let index' = snd (archive_datasets dry_run (full_uri file)
                          (get_datasets_for_location (full_uri file) index) index 0)
      in archive_files dry_run files index'
           (if index' = index then not_found_count + 1 else not_found_count))"
proof -
  let ?r = "archive_datasets dry_run (full_uri file)
                          (get_datasets_for_location (full_uri file) index) index 0"
  from archive_datasets_count [of 0 dry_run "full_uri file" "get_datasets_for_location (full_uri file) index" index]
  have a: "fst ?r = 0 \<longrightarrow> snd ?r = index"
    and b: "0 < fst ?r \<longrightarrow> archived_count index < archived_count (snd ?r)" by simp_all
  have "fst ?r = 0 \<longleftrightarrow> snd ?r = index"
  proof
    assume "fst ?r = 0" with a show "snd ?r = index" by simp
  next
    assume e: "snd ?r = index"
    show "fst ?r = 0"
    proof (rule ccontr)
      assume "fst ?r \<noteq> 0"
      with b have "archived_count index < archived_count (snd ?r)" by simp
      with e show False by simp
    qed
  qed
  then show ?thesis
    by (cases ?r) (simp add: Let_def)
qed

text \<open>
  C9. The exit code of \<open>file archive\<close> and \<open>file restore\<close> should be the number of input
  files for which no location change was made. \<open>restore_cmd\<close> does not do so: for a file
  at whose uri no dataset is found it exits with 0 where \<open>archive_cmd\<close> exits with 1, and
  for a file with three datasets, of which the third has its location restored, it
  exits with 2 although a location was changed.
\<close>

theorem restore_cmd_exit_code:
  "get_datasets_for_location (full_uri ''/g/missing.yaml'') archived_scene = []
   \<and> fst (restore_cmd archived_scene False [''/g/missing.yaml'']) = 0
   \<and> fst (archive_cmd archived_scene False [''/g/missing.yaml'']) = 1
   \<and> get_datasets_for_location (full_uri ''/g/scene.yaml'') archived_scene = [1, 2, 3]
   \<and> fst (restore_location 3 (full_uri ''/g/scene.yaml'') archived_scene) = True
   \<and> snd (restore_cmd archived_scene False [''/g/scene.yaml'']) \<noteq> archived_scene
   \<and> fst (restore_cmd archived_scene False [''/g/scene.yaml'']) = 2"
  by (simp add: restore_cmd_def archive_cmd_def full_uri_def archived_scene_def Let_def
      get_datasets_for_location_def restore_location_def archive_location_def set_archived_def)

subsection \<open>Compiled range fields\<close>

lemma compile_matches_test_time: "sql_expression (compile time_field) = time_sql_expression"
  by (simp add: compile_def time_field_def time_sql_expression_def is_range_def range_name_def scalar_expr_def)

lemma compile_matches_test_lat: "sql_expression (compile lat_field) = lat_sql_expression"
  by (simp add: compile_def lat_field_def lat_sql_expression_def is_range_def range_name_def scalar_expr_def)

lemma compile_matches_test_scalar:
  "sql_expression (compile platform_field) = platform_sql_expression"
  "sql_expression (compile orbit_field) = orbit_sql_expression"
  by (simp_all add: compile_def platform_field_def orbit_field_def platform_sql_expression_def
      orbit_sql_expression_def is_range_def scalar_expr_def)

lemma eval_scalar_expr: "eval_scalar doc (scalar_expr k path) = Some (doc path)"
  by (cases k) (simp_all add: scalar_expr_def)

lemma those_map_Some: "those (map (\<lambda>x. Some (f x)) xs) = Some (map f xs)"
  by (induction xs) simp_all

lemma eval_least:
  "paths \<noteq> [] \<Longrightarrow>
   eval_scalar doc (Least (map (scalar_expr k) paths)) = Some (Min (doc ` set paths))"
proof -
  assume ne: "paths \<noteq> []"
  then obtain p ps where paths: "paths = p # ps" by (cases paths) auto
  have "eval_scalar doc (Least (map (scalar_expr k) paths)) = least_of (map (\<lambda>x. Some (doc x)) paths)"
    by (simp add: comp_def eval_scalar_expr)
  also have "\<dots> = Some (fold min (map doc ps) (doc p))"
    by (simp add: least_of_def those_map_Some paths)
  also have "fold min (map doc ps) (doc p) = Min (set (doc p # map doc ps))"
    by (rule Min.set_eq_fold [symmetric])
  finally show ?thesis by (simp add: paths)
qed

lemma eval_greatest:
  "paths \<noteq> [] \<Longrightarrow>
   eval_scalar doc (Greatest (map (scalar_expr k) paths)) = Some (Max (doc ` set paths))"
proof -
  assume ne: "paths \<noteq> []"
  then obtain p ps where paths: "paths = p # ps" by (cases paths) auto
  have "eval_scalar doc (Greatest (map (scalar_expr k) paths)) = greatest_of (map (\<lambda>x. Some (doc x)) paths)"
    by (simp add: comp_def eval_scalar_expr)
  also have "\<dots> = Some (fold max (map doc ps) (doc p))"
    by (simp add: greatest_of_def those_map_Some paths)
  also have "fold max (map doc ps) (doc p) = Max (set (doc p # map doc ps))"
    by (rule Max.set_eq_fold [symmetric])
  finally show ?thesis by (simp add: paths)
qed

lemma eval_compile_range:
  assumes "is_range (kind f)" "min_offset f \<noteq> []" "max_offset f \<noteq> []"
  shows "eval doc (compile f) =
     (if Min (doc ` set (min_offset f)) \<le> Max (doc ` set (max_offset f))
      then Some (RangeVal (Min (doc ` set (min_offset f))) (Max (doc ` set (max_offset f))))
      else None)"
proof -
  have l: "eval_scalar doc (Least (map (scalar_expr (kind f)) (min_offset f)))
             = Some (Min (doc ` set (min_offset f)))"
    using assms(2) by (rule eval_least)
  have g: "eval_scalar doc (Greatest (map (scalar_expr (kind f)) (max_offset f)))
             = Some (Max (doc ` set (max_offset f)))"
    using assms(3) by (rule eval_greatest)
  from assms(1) have "compile f = RangeOf (range_name (kind f))
             (Least (map (scalar_expr (kind f)) (min_offset f)))
             (Greatest (map (scalar_expr (kind f)) (max_offset f)))"
    by (simp add: compile_def)
  then show ?thesis by (simp only: eval.simps l g) simp
qed

text \<open>
  C1, as the claim states it: a range field backed by N offsets compiles to the range from
  the least to the greatest of all N extracted values. The \<open>time\<close> field is backed by
  \<open>from_dt\<close>, \<open>to_dt\<close> and \<open>center_dt\<close>; its expression, the one the test asserts, takes the
  least of \<open>from_dt\<close> and \<open>center_dt\<close> and the greatest of \<open>to_dt\<close> and \<open>center_dt\<close> only.
  On a document with \<open>from_dt = 5\<close>, \<open>center_dt = 3\<close>, \<open>to_dt = 1\<close> it gives \<open>[3, 3]\<close>, not
  \<open>[1, 5]\<close>.
\<close>

theorem compile_time_field_counterexample:
  "sql_expression (compile time_field) = time_sql_expression
   \<and> eval reversed_extent (compile time_field) = Some (RangeVal 3 3)
   \<and> Min (reversed_extent ` {[''extent'', ''from_dt''], [''extent'', ''to_dt''], [''extent'', ''center_dt'']}) = 1
   \<and> Max (reversed_extent ` {[''extent'', ''from_dt''], [''extent'', ''to_dt''], [''extent'', ''center_dt'']}) = 5"
  by (simp add: compile_def time_field_def time_sql_expression_def is_range_def range_name_def
      scalar_expr_def least_of_def greatest_of_def reversed_extent_def)

text \<open>
  C1, amended. A range field has two offset lists. Its compiled expression evaluates to
  the range from the least of the values at the \<open>min_offset\<close> list to the greatest of the
  values at the \<open>max_offset\<close> list, both ends included (and fails in the database when
  that least exceeds that greatest). When both lists name the same offsets, as for the
  four corners of \<open>lat\<close>, this is the range from the least to the greatest of all the
  values; and permuting either list never changes the result.
\<close>

theorem compile_range_least_greatest:
  assumes "is_range (kind f)" and "min_offset f \<noteq> []" and "max_offset f \<noteq> []"
  shows "eval doc (compile f) =
       (if Min (doc ` set (min_offset f)) \<le> Max (doc ` set (max_offset f))
        then Some (RangeVal (Min (doc ` set (min_offset f))) (Max (doc ` set (max_offset f))))
        else None)
     \<and> (set (min_offset f) = set (max_offset f) \<longrightarrow>
          eval doc (compile f) =
            Some (RangeVal (Min (doc ` set (min_offset f))) (Max (doc ` set (min_offset f)))))
     \<and> (\<forall>f'. kind f' = kind f \<and> mset (min_offset f') = mset (min_offset f)
            \<and> mset (max_offset f') = mset (max_offset f) \<longrightarrow>
          eval doc (compile f') = eval doc (compile f))"
proof (intro conjI impI allI)
  show e: "eval doc (compile f) =
     (if Min (doc ` set (min_offset f)) \<le> Max (doc ` set (max_offset f))
      then Some (RangeVal (Min (doc ` set (min_offset f))) (Max (doc ` set (max_offset f))))
      else None)"
    using assms by (rule eval_compile_range)
  show "eval doc (compile f) =
        Some (RangeVal (Min (doc ` set (min_offset f))) (Max (doc ` set (min_offset f))))"
    if s: "set (min_offset f) = set (max_offset f)"
  proof -
    from assms(2) have "finite (doc ` set (min_offset f))" "doc ` set (min_offset f) \<noteq> {}" by simp_all
    then have "Min (doc ` set (min_offset f)) \<le> Max (doc ` set (min_offset f))"
      by (meson Max_ge Min_le all_not_in_conv order_trans)
    with e s show ?thesis by simp
  qed
  show "eval doc (compile f') = eval doc (compile f)"
    if h: "kind f' = kind f \<and> mset (min_offset f') = mset (min_offset f)
            \<and> mset (max_offset f') = mset (max_offset f)" for f'
  proof -
    from h have k: "kind f' = kind f" and a: "mset (min_offset f') = mset (min_offset f)"
      and b: "mset (max_offset f') = mset (max_offset f)" by simp_all
    from a have sa: "set (min_offset f') = set (min_offset f)" by (rule mset_eq_setD)
    from b have sb: "set (max_offset f') = set (max_offset f)" by (rule mset_eq_setD)
    from sa sb assms have "min_offset f' \<noteq> []" "max_offset f' \<noteq> []" by auto
    with k assms(1) have "eval doc (compile f') =
     (if Min (doc ` set (min_offset f')) \<le> Max (doc ` set (max_offset f'))
      then Some (RangeVal (Min (doc ` set (min_offset f'))) (Max (doc ` set (max_offset f'))))
      else None)"
      by (intro eval_compile_range) simp_all
    with e sa sb show ?thesis by simp
  qed
qed

theorem compile_range_least_greatest_witness:
  "is_range (kind lat_field) \<and> min_offset lat_field \<noteq> [] \<and> max_offset lat_field \<noteq> []
   \<and> set (min_offset lat_field) = set (max_offset lat_field)
   \<and> sql_expression (compile lat_field) = lat_sql_expression
   \<and> eval scene_corners (compile lat_field) = Some (RangeVal (- 3137) (- 2923))
   \<and> eval scene_corners (compile (lat_field\<lparr>min_offset := rev (min_offset lat_field)\<rparr>))
       = eval scene_corners (compile lat_field)"
proof -
  have h: "is_range (kind lat_field)" "min_offset lat_field \<noteq> []" "max_offset lat_field \<noteq> []"
    by (simp_all add: lat_field_def is_range_def)
  have s: "set (min_offset lat_field) = set (max_offset lat_field)"
    by (simp add: lat_field_def)
  have v: "eval scene_corners (compile lat_field) = Some (RangeVal (- 3137) (- 2923))"
    by (simp add: compile_def lat_field_def is_range_def range_name_def scalar_expr_def
        least_of_def greatest_of_def scene_corners_def)
  have p: "kind (lat_field\<lparr>min_offset := rev (min_offset lat_field)\<rparr>) = kind lat_field
     \<and> mset (min_offset (lat_field\<lparr>min_offset := rev (min_offset lat_field)\<rparr>)) = mset (min_offset lat_field)
     \<and> mset (max_offset (lat_field\<lparr>min_offset := rev (min_offset lat_field)\<rparr>)) = mset (max_offset lat_field)"
    by simp
  from compile_range_least_greatest [OF h, of scene_corners] p
  have "eval scene_corners (compile (lat_field\<lparr>min_offset := rev (min_offset lat_field)\<rparr>))
       = eval scene_corners (compile lat_field)"
    by blast
  with h s v compile_matches_test_lat show ?thesis by simp
qed

subsection \<open>Adding and updating definitions\<close>

lemma dict_equal_refl: "dict_equal a a"
  by (simp add: dict_equal_def list_all_iff)

lemma equivalent_refl: "equivalent d d"
  by (simp add: equivalent_def dict_equal_refl)

lemma changed_fields_nonempty:
  "(n, fd) \<in> set (dataset_fields old) \<Longrightarrow> map_of (dataset_fields new) n = Some fd' \<Longrightarrow>
   offsets_changed fd fd' \<Longrightarrow> changed_fields old new \<noteq> []"
  by (force simp: changed_fields_def filter_empty_conv)

lemma tightened_rules_nonempty:
  "(path, v) \<in> set (match_rules new) \<Longrightarrow> map_of (match_rules old) path \<noteq> Some v \<Longrightarrow>
   tightened_rules old new \<noteq> []"
  by (force simp: tightened_rules_def filter_empty_conv)

text \<open>
  C2. Adding a definition that is equivalent to the one stored under its name succeeds
  silently and leaves the registry as it is; in particular, after a successful add, adding
  the same definition again succeeds and leaves the state of the first add. Adding a
  definition whose name is stored with a differing definition fails with a validation
  error, the registry is unchanged and the stored definition is still the old one. A
  definition under a new name is stored as it is.
\<close>

theorem add_idempotent:
  "(\<forall>e. reg (doc_name d) = Some e \<and> equivalent e d \<longrightarrow> add d reg = (reg, None))
   \<and> (snd (add d reg) = None \<longrightarrow> add d (fst (add d reg)) = (fst (add d reg), None))
   \<and> (\<forall>e. reg (doc_name d) = Some e \<and> \<not> equivalent e d \<longrightarrow>
         (\<exists>names. add d reg = (reg, Some (ValidationError names)))
         \<and> get_by_name (fst (add d reg)) (doc_name d) = Some e)
   \<and> (reg (doc_name d) = None \<longrightarrow>
         add d reg = (reg(doc_name d \<mapsto> d), None)
         \<and> get_by_name (fst (add d reg)) (doc_name d) = Some d)"
  by (auto simp: add_def get_by_name_def equivalent_refl split: option.splits)

theorem add_idempotent_witness:
  "example_registry (doc_name ls5_telem_doc) = Some ls5_telem_doc
   \<and> equivalent ls5_telem_doc ls5_telem_doc
   \<and> add ls5_telem_doc example_registry = (example_registry, None)
   \<and> snd (add ls5_telem_doc Map.empty) = None
   \<and> add ls5_telem_doc (fst (add ls5_telem_doc Map.empty)) = (fst (add ls5_telem_doc Map.empty), None)
   \<and> example_registry (doc_name different_telemetry_type) = Some ls5_telem_doc
   \<and> \<not> equivalent ls5_telem_doc different_telemetry_type
   \<and> (\<exists>names. add different_telemetry_type example_registry = (example_registry, Some (ValidationError names)))
   \<and> get_by_name (fst (add different_telemetry_type example_registry)) ''ls5_telem_test'' = Some ls5_telem_doc
   \<and> get_by_name (fst (add ls5_telem_doc Map.empty)) ''ls5_telem_test'' = Some ls5_telem_doc"
proof -
  have a: "example_registry (doc_name ls5_telem_doc) = Some ls5_telem_doc"
    "example_registry (doc_name different_telemetry_type) = Some ls5_telem_doc"
    by (simp_all add: example_registry_def ls5_telem_doc_def different_telemetry_type_def)
  have n: "doc_name different_telemetry_type = ''ls5_telem_test''"
    "doc_name ls5_telem_doc = ''ls5_telem_test''"
    by (simp_all add: ls5_telem_doc_def different_telemetry_type_def)
  have b: "equivalent ls5_telem_doc ls5_telem_doc" by (rule equivalent_refl)
  have c: "\<not> equivalent ls5_telem_doc different_telemetry_type"
    by (simp add: equivalent_def dict_equal_def ls5_telem_doc_def different_telemetry_type_def)
  have d: "snd (add ls5_telem_doc Map.empty) = None" by (simp add: add_def)
  have e: "Map.empty (doc_name ls5_telem_doc) = (None :: type_doc option)" by simp
  note t1 = add_idempotent [of example_registry ls5_telem_doc]
  note t2 = add_idempotent [of Map.empty ls5_telem_doc]
  note t3 = add_idempotent [of example_registry different_telemetry_type]
  from t1 a(1) b have 1: "add ls5_telem_doc example_registry = (example_registry, None)"
    by blast
  from t2 d have 2: "add ls5_telem_doc (fst (add ls5_telem_doc Map.empty))
      = (fst (add ls5_telem_doc Map.empty), None)"
    by blast
  from t3 a(2) c
  have 3: "\<exists>names. add different_telemetry_type example_registry
        = (example_registry, Some (ValidationError names))"
    and 4: "get_by_name (fst (add different_telemetry_type example_registry))
        (doc_name different_telemetry_type) = Some ls5_telem_doc"
    by blast+
  from t2 e have 5: "get_by_name (fst (add ls5_telem_doc Map.empty)) (doc_name ls5_telem_doc)
      = Some ls5_telem_doc"
    by blast
  from 4 have r4: "get_by_name (fst (add different_telemetry_type example_registry))
        ''ls5_telem_test'' = Some ls5_telem_doc"
    by (simp only: n)
  from 5 have r5: "get_by_name (fst (add ls5_telem_doc Map.empty)) ''ls5_telem_test''
      = Some ls5_telem_doc"
    by (simp only: n)
  from a b 1 d 2 c 3 r4 r5 show ?thesis by blast
qed

text \<open>
  C3. For a stored definition and an update that changes an existing field's type or
  extraction offsets, or adds or changes a match rule: without \<open>allow_unsafe\<close> the
  update fails with a validation error naming the offending fields and the stored
  definition is unchanged; with \<open>allow_unsafe\<close> it succeeds and a read returns exactly
  the new definition.
\<close>

theorem update_unsafe_needs_permission:
  assumes "reg (doc_name d) = Some old"
    and "(\<exists>n fd fd'. (n, fd) \<in> set (dataset_fields old) \<and> map_of (dataset_fields d) n = Some fd'
            \<and> (kind fd' \<noteq> kind fd \<or> offset fd' \<noteq> offset fd
                \<or> min_offset fd' \<noteq> min_offset fd \<or> max_offset fd' \<noteq> max_offset fd))
         \<or> (\<exists>path v. (path, v) \<in> set (match_rules d) \<and> map_of (match_rules old) path \<noteq> Some v)"
  shows "unsafe_changes old d \<noteq> []
     \<and> update d False reg = (reg, Some (ValidationError (unsafe_changes old d)))
     \<and> get_by_name (fst (update d False reg)) (doc_name d) = Some old
     \<and> update d True reg = (reg(doc_name d \<mapsto> d), None)
     \<and> get_by_name (fst (update d True reg)) (doc_name d) = Some d"
proof -
  from assms(2) have "changed_fields old d \<noteq> [] \<or> tightened_rules old d \<noteq> []"
  proof
    assume "\<exists>n fd fd'. (n, fd) \<in> set (dataset_fields old) \<and> map_of (dataset_fields d) n = Some fd'
            \<and> (kind fd' \<noteq> kind fd \<or> offset fd' \<noteq> offset fd
                \<or> min_offset fd' \<noteq> min_offset fd \<or> max_offset fd' \<noteq> max_offset fd)"
    then obtain n fd fd' where "(n, fd) \<in> set (dataset_fields old)"
      "map_of (dataset_fields d) n = Some fd'" "offsets_changed fd fd'"
      by (auto simp: offsets_changed_def)
    then have "changed_fields old d \<noteq> []" by (rule changed_fields_nonempty)
    then show ?thesis ..
  next
    assume "\<exists>path v. (path, v) \<in> set (match_rules d) \<and> map_of (match_rules old) path \<noteq> Some v"
    then obtain path v where "(path, v) \<in> set (match_rules d)" "map_of (match_rules old) path \<noteq> Some v"
      by auto
    then have "tightened_rules old d \<noteq> []" by (rule tightened_rules_nonempty)
    then show ?thesis ..
  qed
  then have u: "unsafe_changes old d \<noteq> []" by (auto simp: unsafe_changes_def)
  with assms(1) show ?thesis by (simp add: update_def get_by_name_def)
qed

theorem update_unsafe_needs_permission_witness:
  "example_registry (doc_name different_telemetry_type) = Some ls5_telem_doc
   \<and> ([''ga_label''], ''something'') \<in> set (match_rules different_telemetry_type)
   \<and> map_of (match_rules ls5_telem_doc) [''ga_label''] \<noteq> Some ''something''
   \<and> update different_telemetry_type False example_registry
        = (example_registry, Some (ValidationError [''ga_label'']))
   \<and> get_by_name (fst (update different_telemetry_type True example_registry)) ''ls5_telem_test''
        = Some different_telemetry_type
   \<and> example_registry (doc_name eo_type_numeric_time) = Some eo_type
   \<and> update eo_type_numeric_time False example_registry
        = (example_registry, Some (ValidationError [''time'']))
   \<and> get_by_name (fst (update eo_type_numeric_time True example_registry)) ''eo''
        = Some eo_type_numeric_time"
proof -
  have a: "example_registry (doc_name different_telemetry_type) = Some ls5_telem_doc"
    "example_registry (doc_name eo_type_numeric_time) = Some eo_type"
    "doc_name different_telemetry_type = ''ls5_telem_test''" "doc_name eo_type_numeric_time = ''eo''"
    by (simp_all add: example_registry_def ls5_telem_doc_def different_telemetry_type_def
        eo_type_numeric_time_def eo_type_def)
  have r: "([''ga_label''], ''something'') \<in> set (match_rules different_telemetry_type)"
    "map_of (match_rules ls5_telem_doc) [''ga_label''] \<noteq> Some ''something''"
    by (simp_all add: ls5_telem_doc_def different_telemetry_type_def)
  have t: "(''time'', time_field) \<in> set (dataset_fields eo_type)"
    "map_of (dataset_fields eo_type_numeric_time) ''time'' = Some (time_field\<lparr>kind := DoubleRangeField\<rparr>)"
    "kind (time_field\<lparr>kind := DoubleRangeField\<rparr>) \<noteq> kind time_field"
    by (simp_all add: eo_type_def eo_type_numeric_time_def time_field_def)
  have u: "unsafe_changes ls5_telem_doc different_telemetry_type = [''ga_label'']"
    by (simp add: unsafe_changes_def changed_fields_def tightened_rules_def removed_fields_def
        ls5_telem_doc_def different_telemetry_type_def)
  have v: "unsafe_changes eo_type eo_type_numeric_time = [''time'']"
    by (simp add: unsafe_changes_def changed_fields_def tightened_rules_def removed_fields_def
        eo_type_def eo_type_numeric_time_def offsets_changed_def time_field_def lat_field_def platform_field_def)
  have "(\<exists>n fd fd'. (n, fd) \<in> set (dataset_fields ls5_telem_doc)
            \<and> map_of (dataset_fields different_telemetry_type) n = Some fd'
            \<and> (kind fd' \<noteq> kind fd \<or> offset fd' \<noteq> offset fd
                \<or> min_offset fd' \<noteq> min_offset fd \<or> max_offset fd' \<noteq> max_offset fd))
         \<or> (\<exists>path v. (path, v) \<in> set (match_rules different_telemetry_type)
            \<and> map_of (match_rules ls5_telem_doc) path \<noteq> Some v)"
    using r by blast
  from update_unsafe_needs_permission
    [where reg = example_registry and d = different_telemetry_type and old = ls5_telem_doc, OF a(1) this]
  have 1: "update different_telemetry_type False example_registry
        = (example_registry, Some (ValidationError [''ga_label'']))"
    and 2: "get_by_name (fst (update different_telemetry_type True example_registry)) ''ls5_telem_test''
        = Some different_telemetry_type"
    by (simp_all add: u a get_by_name_def)
  have "(\<exists>n fd fd'. (n, fd) \<in> set (dataset_fields eo_type)
            \<and> map_of (dataset_fields eo_type_numeric_time) n = Some fd'
            \<and> (kind fd' \<noteq> kind fd \<or> offset fd' \<noteq> offset fd
                \<or> min_offset fd' \<noteq> min_offset fd \<or> max_offset fd' \<noteq> max_offset fd))
         \<or> (\<exists>path v. (path, v) \<in> set (match_rules eo_type_numeric_time)
            \<and> map_of (match_rules eo_type) path \<noteq> Some v)"
    using t by blast
  from update_unsafe_needs_permission
    [where reg = example_registry and d = eo_type_numeric_time and old = eo_type, OF a(2) this]
  have 3: "update eo_type_numeric_time False example_registry
        = (example_registry, Some (ValidationError [''time'']))"
    and 4: "get_by_name (fst (update eo_type_numeric_time True example_registry)) ''eo''
        = Some eo_type_numeric_time"
    by (simp_all add: v a get_by_name_def)
  from a r 1 2 3 4 show ?thesis by simp
qed

subsection \<open>Rows of search\_returning\<close>

lemma search_returning_Cons:
  "search_returning field_names query ((i, d) # datasets) =
     (if query d
      then (if ''uri'' \<in> set field_names
            then map (result_row field_names i d) (uris d)
            else [result_row field_names i d []])
      else [])
     @ search_returning field_names query datasets"
  by (simp add: search_returning_def)

lemma search_returning_Nil: "search_returning field_names query [] = []"
  by (simp add: search_returning_def)

lemma rows_of_other_dataset:
  "i \<notin> fst ` set datasets \<Longrightarrow>
   filter (\<lambda>r. hd r = IdCell i) (search_returning (''id'' # field_names) query datasets) = []"
proof (induction datasets)
  case Nil
  show ?case by (simp add: search_returning_Nil)
next
  case (Cons a datasets)
  obtain j d where a: "a = (j, d)" by (cases a)
  from Cons.prems have ne: "j \<noteq> i" and rest: "i \<notin> fst ` set datasets" by (auto simp: a)
  from ne have "filter (\<lambda>r. hd r = IdCell i)
      (if query d
       then (if ''uri'' \<in> set (''id'' # field_names)
            then map (result_row (''id'' # field_names) j d) (uris d)
            else [result_row (''id'' # field_names) j d []])
       else []) = []"
    by (auto simp: result_row_def filter_empty_conv)
  with Cons.IH [OF rest] show ?case
    by (simp only: a search_returning_Cons filter_append) simp
qed

lemma rows_of_dataset:
  "distinct (map fst datasets) \<Longrightarrow> (i, d) \<in> set datasets \<Longrightarrow> ''uri'' \<in> set field_names \<Longrightarrow>
   filter (\<lambda>r. hd r = IdCell i) (search_returning (''id'' # field_names) query datasets)
     = (if query d then map (result_row (''id'' # field_names) i d) (uris d) else [])"
proof (induction datasets)
  case Nil
  then show ?case by simp
next
  case (Cons a datasets)
  obtain j e where a: "a = (j, e)" by (cases a)
  from Cons.prems(1) have jn: "j \<notin> fst ` set datasets" and dist: "distinct (map fst datasets)"
    by (auto simp: a)
  show ?case
  proof (cases "(i, d) = (j, e)")
    case True
    then have ij: "j = i" "e = d" by simp_all
    have own: "filter (\<lambda>r. hd r = IdCell i) (map (result_row (''id'' # field_names) i d) (uris d))
        = map (result_row (''id'' # field_names) i d) (uris d)"
      by (simp add: result_row_def filter_id_conv)
    from jn have "filter (\<lambda>r. hd r = IdCell i) (search_returning (''id'' # field_names) query datasets) = []"
      unfolding ij by (rule rows_of_other_dataset)
    with own Cons.prems(3) show ?thesis
      by (simp only: a ij search_returning_Cons filter_append) simp
  next
    case False
    with Cons.prems(2) have mem: "(i, d) \<in> set datasets" by (auto simp: a)
    with jn have ne: "j \<noteq> i" by force
    then have "filter (\<lambda>r. hd r = IdCell i)
      (if query e
       then (if ''uri'' \<in> set (''id'' # field_names)
            then map (result_row (''id'' # field_names) j e) (uris e)
            else [result_row (''id'' # field_names) j e []])
       else []) = []"
      by (auto simp: result_row_def filter_empty_conv)
    with Cons.IH [OF dist mem Cons.prems(3)] show ?thesis
      by (simp only: a search_returning_Cons filter_append) simp
  qed
qed

lemma length_search_returning:
  "''uri'' \<in> set field_names \<Longrightarrow>
   length (search_returning field_names query datasets)
     = sum_list (map (\<lambda>(i, d). length (uris d)) (filter (\<lambda>(i, d). query d) datasets))"
proof (induction datasets)
  case Nil
  show ?case by (simp add: search_returning_Nil)
next
  case (Cons a datasets)
  obtain j e where a: "a = (j, e)" by (cases a)
  from Cons show ?case by (simp add: a search_returning_Cons)
qed

text \<open>
  C7. When \<open>uri\<close> is among the requested fields, \<open>search_returning\<close> emits one row per
  (matching dataset, location) pair: the number of rows is the sum of the numbers of
  locations of the matching datasets, and, ids being unique, the rows of a dataset are
  one for each of its uris, in order, if it matches (two rows for two locations, none
  for no location) and none if it does not; for the fields \<open>(id, uri)\<close> a row pairs the
  id with the uri.
\<close>

theorem search_returning_row_per_location:
  assumes "''uri'' \<in> set field_names"
  shows "length (search_returning field_names query datasets)
       = sum_list (map (\<lambda>(i, d). length (uris d)) (filter (\<lambda>(i, d). query d) datasets))
     \<and> (distinct (map fst datasets) \<longrightarrow>
          (\<forall>i d. (i, d) \<in> set datasets \<longrightarrow>
             filter (\<lambda>r. hd r = IdCell i) (search_returning (''id'' # field_names) query datasets)
               = (if query d then map (result_row (''id'' # field_names) i d) (uris d) else [])
             \<and> length (filter (\<lambda>r. hd r = IdCell i)
                   (search_returning (''id'' # field_names) query datasets))
               = (if query d then length (uris d) else 0)))
     \<and> (\<forall>i d u. result_row [''id'', ''uri''] i d u = [IdCell i, UriCell u])"
proof (intro conjI impI allI)
  show "length (search_returning field_names query datasets)
       = sum_list (map (\<lambda>(i, d). length (uris d)) (filter (\<lambda>(i, d). query d) datasets))"
    using assms by (rule length_search_returning)
next
  fix i d
  assume dist: "distinct (map fst datasets)" and mem: "(i, d) \<in> set datasets"
  from rows_of_dataset [OF dist mem assms]
  show r: "filter (\<lambda>r. hd r = IdCell i) (search_returning (''id'' # field_names) query datasets)
               = (if query d then map (result_row (''id'' # field_names) i d) (uris d) else [])" .
  show "length (filter (\<lambda>r. hd r = IdCell i)
                   (search_returning (''id'' # field_names) query datasets))
               = (if query d then length (uris d) else 0)"
    by (simp only: r) simp
next
  fix i d u
  show "result_row [''id'', ''uri''] i d u = [IdCell i, UriCell u]"
    by (simp add: result_row_def)
qed

theorem search_returning_row_per_location_witness:
  "''uri'' \<in> set [''uri''] \<and> distinct (map fst telemetry_datasets)
   \<and> search_returning [''id'', ''uri''] on_landsat_8 telemetry_datasets
       = [[IdCell 1, UriCell ''file:///tmp/test2''], [IdCell 1, UriCell ''file:///tmp/test1'']]
   \<and> length (filter (\<lambda>r. hd r = IdCell 1) (search_returning [''id'', ''uri''] on_landsat_8 telemetry_datasets)) = 2
   \<and> length (filter (\<lambda>r. hd r = IdCell 2) (search_returning [''id'', ''uri''] on_landsat_8 telemetry_datasets)) = 0
   \<and> length (filter (\<lambda>r. hd r = IdCell 3) (search_returning [''id'', ''uri''] on_landsat_8 telemetry_datasets)) = 0"
proof -
  have u: "''uri'' \<in> set [''uri'']" by simp
  have d: "distinct (map fst telemetry_datasets)" by (simp add: telemetry_datasets_def)
  have s: "search_returning [''id'', ''uri''] on_landsat_8 telemetry_datasets
       = [[IdCell 1, UriCell ''file:///tmp/test2''], [IdCell 1, UriCell ''file:///tmp/test1'']]"
    by (simp add: search_returning_def telemetry_datasets_def on_landsat_8_def result_row_def)
  from u d s show ?thesis
    using search_returning_row_per_location [OF u, of on_landsat_8 telemetry_datasets]
    by simp
qed

end
